theory Spec2Isabelle
  imports Main "HOL-Library.Word"
begin

section \<open>Strings and bytes\<close>

text \<open>
  A JavaScript string is a sequence of UTF-16 code units; the regular expressions of
  \<^verbatim>\<open>llm-complete.js\<close> have no \<^verbatim>\<open>u\<close> flag and so work on code units. A file is
  a sequence of bytes. \<open>str\<close> turns an ASCII literal into the JavaScript string.
\<close>

type_synonym jschar = "16 word"
type_synonym jsstring = "jschar list"
type_synonym byte = "8 word"

definition str :: "string \<Rightarrow> jsstring" where
  "str s = map of_char s"

definition LF :: jschar where
  "LF = 0x0A"

definition SPACE :: jschar where
  "SPACE = 0x20"

definition ETX :: jschar where
  "ETX = 0x03"

text \<open>The string \<^verbatim>\<open>'\n'\<close>.\<close>

definition NL :: jsstring where
  "NL = [LF]"

text \<open>
  \<^verbatim>\<open>s.match(/[...]/)\<close> for a character class: the class matches at the first code
  unit of \<open>s\<close> that belongs to it. The result is used as a truth value only.
\<close>

fun regexTest :: "jschar list \<Rightarrow> jsstring \<Rightarrow> bool" where
  "regexTest cls [] = False"
| "regexTest cls (c # cs) = (c \<in> set cls \<or> regexTest cls cs)"

text \<open>
  \<^verbatim>\<open>const boundaries = /[.?!...:;\n]/\<close> (line 226). Between \<^verbatim>\<open>!\<close> and \<^verbatim>\<open>:\<close> the
  source file holds the six bytes C3 A2, E2 82 AC, C2 A6, which are the UTF-8 encodings
  of the three code points U+00E2, U+20AC and U+00A6; the class has these three members
  there, and U+2026 (horizontal ellipsis) is not one of them.
\<close>

definition boundaries :: "jschar list" where
  "boundaries = [0x2E, 0x3F, 0x21, 0xE2, 0x20AC, 0xA6, 0x3A, 0x3B, 0x0A]"

definition startsWith :: "jsstring \<Rightarrow> jschar \<Rightarrow> bool" where
  "startsWith s c = (case s of [] \<Rightarrow> False | x # _ \<Rightarrow> x = c)"

definition endsWith :: "jsstring \<Rightarrow> jschar \<Rightarrow> bool" where
  "endsWith s c = (s \<noteq> [] \<and> last s = c)"

text \<open>
  \<^verbatim>\<open>input.replace(/[^\n](\n)$/, '')\<close> (line 233): the pattern is tried at each
  position from the left; it needs a code unit other than a newline, then a newline, then
  the end of the input (\<^verbatim>\<open>$\<close> without the \<^verbatim>\<open>m\<close> flag). The whole match is
  replaced by the empty string.
\<close>

fun trimInput :: "jsstring \<Rightarrow> jsstring" where
  "trimInput [] = []"
| "trimInput [c] = [c]"
| "trimInput (c # d # rest) =
     (if c \<noteq> LF \<and> d = LF \<and> rest = [] then [] else c # trimInput (d # rest))"

text \<open>
  \<^verbatim>\<open>xs.slice(start, end)\<close>: a negative index counts from the end, and both are clamped
  to the length.
\<close>

definition slice :: "'a list \<Rightarrow> int \<Rightarrow> int \<Rightarrow> 'a list" where
  "slice xs start end =
     (let n = int (length xs);
          s = (if start < 0 then max (n + start) 0 else min start n);
          e = (if end < 0 then max (n + end) 0 else min end n)
      in take (nat (e - s)) (drop (nat s) xs))"

text \<open>
  \<^verbatim>\<open>buffer[i]\<close>. Outside the array JavaScript gives \<^verbatim>\<open>undefined\<close>, which
  \<^verbatim>\<open>rl.line += token\<close> would spell out; \<open>onToken_index_in_range\<close> and
  \<open>liveLoop_index_in_range\<close> show that the live loop never reads there.
\<close>

definition at :: "jsstring list \<Rightarrow> nat \<Rightarrow> jsstring" where
  "at xs i = (if i < length xs then xs ! i else str ''undefined'')"

section \<open>Run state, terminal and configuration\<close>

text \<open>
  The \<^verbatim>\<open>state\<close> object (lines 8 to 13). \<open>flashLoop\<close> is true while the interval timer
  held in \<^verbatim>\<open>state.flashLoop\<close> is armed.
\<close>

record state =
  busy :: bool
  killed :: bool
  flashOn :: bool
  flashLoop :: bool

definition initialState :: state where
  "initialState = \<lparr>busy = False, killed = False, flashOn = False, flashLoop = False\<rparr>"

text \<open>
  The terminal as the input guard sees it: the handler installed in \<^verbatim>\<open>rl._ttyWrite\<close>
  (the saved \<^verbatim>\<open>tty\<close> or the empty function), whether the cursor is shown, and what has
  been written to stderr.
\<close>

datatype ttyHandler = Tty | NoOp

record terminal =
  ttyWrite :: ttyHandler
  cursorShown :: bool
  stderrText :: jsstring

definition hideCursor :: jsstring where
  "hideCursor = 0x1B # str ''[?25l''"

definition showCursor :: jsstring where
  "showCursor = 0x1B # str ''[?25h''"

definition blockInput :: "terminal \<Rightarrow> terminal" where
  "blockInput t = t\<lparr>ttyWrite := NoOp, cursorShown := False,
                     stderrText := stderrText t @ hideCursor\<rparr>"

definition restoreInput :: "terminal \<Rightarrow> terminal" where
  "restoreInput t = t\<lparr>ttyWrite := Tty, cursorShown := True,
                       stderrText := stderrText t @ showCursor\<rparr>"

text \<open>
  The command line and the environment: \<^verbatim>\<open>append\<close>, \<^verbatim>\<open>process.stdout.isTTY\<close> and
  the number that \<^verbatim>\<open>process.env.BUFFER ?? 30\<close> stands for in the comparisons of the
  live loop (\<^verbatim>\<open>==\<close> and \<^verbatim>\<open>>=\<close> turn the string of the environment into a
  number), taken to be an integer.
\<close>

record config =
  append_flag :: bool
  isTTY :: bool
  bufferAhead :: int

text \<open>The \<^verbatim>\<open>data\<close> handler of the terminal input (lines 133 to 142).\<close>

definition onData :: "jsstring \<Rightarrow> state \<Rightarrow> state" where
  "onData keyStr s =
     (if busy s then (if keyStr = [ETX] then s\<lparr>killed := True\<rparr> else s) else s)"

definition startIndicating :: "state \<Rightarrow> state" where
  "startIndicating s = s\<lparr>flashLoop := True\<rparr>"

text \<open>One firing of the interval timer of \<^verbatim>\<open>startIndicating\<close>.\<close>

definition flashTick :: "state \<Rightarrow> state" where
  "flashTick s = (if flashOn s then s\<lparr>flashOn := False\<rparr> else s\<lparr>flashOn := True\<rparr>)"

definition stopIndicating :: "state \<Rightarrow> state" where
  "stopIndicating s = s\<lparr>flashOn := False, flashLoop := False\<rparr>"

section \<open>Effects\<close>

text \<open>What a run does to the outside, in the order in which it does it.\<close>

datatype effect =
    FileWrite jsstring
  | StdoutWrite jsstring
  | LineWrite jsstring
  | CreateWriteStream
  | CreateCompletionStream jsstring
  | StopIndicating
  | RestoreInput
  | ConsoleError
  | SetTimeoutDispose nat
  | Dispose
  | ProcessExit

definition writeToken :: "config \<Rightarrow> jsstring \<Rightarrow> effect" where
  "writeToken cfg token =
     (if append_flag cfg then FileWrite token
      else if \<not> isTTY cfg then StdoutWrite token
      else LineWrite token)"

definition shutdown :: "state \<Rightarrow> effect list" where
  "shutdown s = (if busy s then [SetTimeoutDispose 800] else [Dispose])"

definition uncaughtException :: "state \<Rightarrow> effect list" where
  "uncaughtException s = ConsoleError # (if busy s then shutdown s else [ProcessExit])"

definition handleProcessingError :: "state \<Rightarrow> effect list" where
  "handleProcessingError s = ConsoleError # shutdown s"

definition proccessingStopped :: "config \<Rightarrow> state \<Rightarrow> state \<times> effect list" where
  "proccessingStopped cfg s =
     (let s1 = stopIndicating s
      in (s1, [writeToken cfg NL, StopIndicating, RestoreInput] @ shutdown s1))"

text \<open>The texts handed to the sink, in order.\<close>

fun written :: "effect list \<Rightarrow> jsstring list" where
  "written [] = []"
| "written (FileWrite t # es) = t # written es"
| "written (StdoutWrite t # es) = t # written es"
| "written (LineWrite t # es) = t # written es"
| "written (e # es) = written es"

section \<open>Append mode: the newline check on the file\<close>

text \<open>
  \<^verbatim>\<open>inputFile.read(tempFile, 0, 2, eof)\<close> into a zeroed buffer of two bytes, and
  \<^verbatim>\<open>inputFile.truncate(len)\<close>.
\<close>

definition readLastBytes :: "byte list \<Rightarrow> int \<Rightarrow> byte list" where
  "readLastBytes file eof = take 2 (take 2 (drop (nat eof) file) @ [0, 0])"

definition truncateFile :: "byte list \<Rightarrow> int \<Rightarrow> byte list" where
  "truncateFile file len = take (nat len) file @ replicate (nat len - length file) 0"

definition createWriteStream :: "byte list \<Rightarrow> byte list" where
  "createWriteStream file =
     (let eof = int (length file) - 2
      in if eof > 1 then
           (let lastBytes = readLastBytes file eof;
                isSingleNewline = (lastBytes ! 0 \<noteq> 0x0A \<and> lastBytes ! 1 = 0x0A)
            in if isSingleNewline then truncateFile file (eof + 1) else file)
         else file)"

section \<open>The stream\<close>

text \<open>
  What reaches \<^verbatim>\<open>processStream\<close> while it waits for the token source: a token, a
  chunk of terminal input (handled by \<open>onData\<close> before the loop goes on), or an
  exception thrown by the source.
\<close>

datatype event = Token jsstring | Key jsstring | SourceError

datatype outcome = Ended | Returned | Threw

record loopvars =
  buffer :: "jsstring list"
  currentToken :: int
  currentIndex :: nat
  currentBoundary :: int

definition initialLoop :: loopvars where
  "initialLoop = \<lparr>buffer = [], currentToken = - 1, currentIndex = 0, currentBoundary = - 1\<rparr>"

text \<open>The body of the \<^verbatim>\<open>for await\<close> loop after the \<^verbatim>\<open>killed\<close> check (lines 260 to 286).\<close>

definition onToken ::
  "config \<Rightarrow> jsstring \<Rightarrow> jsstring \<Rightarrow> state \<times> loopvars \<times> effect list
     \<Rightarrow> state \<times> loopvars \<times> effect list" where
  "onToken cfg input token0 = (\<lambda>(s, l, out).
     (let token = (if currentToken l < 0 \<and> startsWith token0 SPACE \<and> endsWith input SPACE
                   then drop 1 token0 else token0);
          buf = buffer l @ [token];
          ct = currentToken l + 1;
          cb = (if regexTest boundaries token then int (length buf) else currentBoundary l);
          hide = (ct = bufferAhead cfg \<and> \<not> append_flag cfg \<and> isTTY cfg);
          emit = (ct \<ge> bufferAhead cfg)
      in ((if hide then stopIndicating s else s),
          \<lparr>buffer = buf, currentToken = ct,
           currentIndex = (if emit then currentIndex l + 1 else currentIndex l),
           currentBoundary = cb\<rparr>,
          out @ (if hide then [StopIndicating] else [])
              @ (if emit then [writeToken cfg (at buf (currentIndex l))] else []))))"

fun liveLoop ::
  "config \<Rightarrow> jsstring \<Rightarrow> event list \<Rightarrow> state \<times> loopvars \<times> effect list
     \<Rightarrow> outcome \<times> state \<times> loopvars \<times> effect list" where
  "liveLoop cfg input [] (s, l, out) = (Ended, s, l, out)"
| "liveLoop cfg input (Key k # es) (s, l, out) = liveLoop cfg input es (onData k s, l, out)"
| "liveLoop cfg input (SourceError # es) (s, l, out) = (Threw, s, l, out)"
| "liveLoop cfg input (Token t # es) (s, l, out) =
     (if killed s then (Returned, s, l, out)
      else liveLoop cfg input es (onToken cfg input t (s, l, out)))"

text \<open>
  The contents of \<^verbatim>\<open>buffer\<close> once the tokens \<open>ts\<close> have been pushed: the
  tokens as produced, except that the first one loses a leading space when the input ends
  with a space (lines 261 to 269).
\<close>

definition buffered :: "jsstring \<Rightarrow> jsstring list \<Rightarrow> jsstring list" where
  "buffered input ts =
     (case ts of
        [] \<Rightarrow> []
      | t # rest \<Rightarrow>
          (if startsWith t SPACE \<and> endsWith input SPACE then drop 1 t else t) # rest)"

text \<open>\<^verbatim>\<open>while (buffer.slice(-1)[0]?.match(/\n/)) buffer.pop()\<close> (lines 293 to 295).\<close>

function popNewlines :: "jsstring list \<Rightarrow> jsstring list" where
  "popNewlines buf =
     (if buf \<noteq> [] \<and> regexTest [LF] (last buf) then popNewlines (butlast buf) else buf)"
  by pat_completeness auto
termination
  by (relation "measure length") auto

declare popNewlines.simps [simp del]

text \<open>
  Lines 290 to 296. The test \<^verbatim>\<open>if (currentBoundary)\<close> is JavaScript truthiness of a
  number: false for 0 only.
\<close>

definition drain :: "loopvars \<Rightarrow> jsstring list" where
  "drain l =
     (if currentBoundary l \<noteq> 0 then
        (let boundary = (if currentBoundary l \<noteq> 0 then currentBoundary l
                         else int (length (buffer l)) - 1)
         in popNewlines (slice (buffer l) (int (currentIndex l)) boundary))
      else buffer l)"

text \<open>
  The paced loop (lines 299 to 307). \<open>keys i\<close> is the terminal input that arrives during
  the 200 ms wait of iteration \<open>i\<close>, if any; the token of that iteration is written when
  the timer fires.
\<close>

fun tailLoop ::
  "config \<Rightarrow> (nat \<Rightarrow> jsstring option) \<Rightarrow> nat \<Rightarrow> jsstring list \<Rightarrow> state \<times> effect list
     \<Rightarrow> outcome \<times> state \<times> effect list" where
  "tailLoop cfg keys i [] (s, out) = (Ended, s, out)"
| "tailLoop cfg keys i (t # ts) (s, out) =
     (if killed s then (Returned, s, out)
      else tailLoop cfg keys (Suc i) ts
             ((case keys i of None \<Rightarrow> s | Some k \<Rightarrow> onData k s), out @ [writeToken cfg t]))"

definition finish :: "config \<Rightarrow> state \<times> effect list \<Rightarrow> state \<times> effect list" where
  "finish cfg = (\<lambda>(s, out). (fst (proccessingStopped cfg s), out @ snd (proccessingStopped cfg s)))"

text \<open>
  \<^verbatim>\<open>processStream\<close> (lines 229 to 313) with its \<^verbatim>\<open>catch\<close> and \<^verbatim>\<open>finally\<close>. The
  result is the last state and everything the run did.
\<close>

definition processStream ::
  "config \<Rightarrow> jsstring \<Rightarrow> event list \<Rightarrow> (nat \<Rightarrow> jsstring option) \<Rightarrow> state
     \<Rightarrow> state \<times> effect list" where
  "processStream cfg input0 events keys s0 =
     (let s1 = s0\<lparr>busy := True\<rparr>;
          input = trimInput input0;
          out1 = (if append_flag cfg then [CreateWriteStream] else [writeToken cfg input])
                 @ [CreateCompletionStream input]
      in case liveLoop cfg input events (s1, initialLoop, out1) of
           (Returned, s2, l, out2) \<Rightarrow> finish cfg (s2, out2)
         | (Threw, s2, l, out2) \<Rightarrow> finish cfg (s2, out2 @ handleProcessingError s2)
         | (Ended, s2, l, out2) \<Rightarrow>
             (case tailLoop cfg keys 0 (drain l) (s2, out2) of
                (oc, s3, out3) \<Rightarrow> finish cfg (s3, out3)))"

section \<open>Basic facts\<close>

lemmas run_defs = processStream_def onToken_def Let_def drain_def slice_def finish_def
  proccessingStopped_def shutdown_def writeToken_def stopIndicating_def startIndicating_def
  initialState_def initialLoop_def at_def startsWith_def endsWith_def boundaries_def
  str_def LF_def NL_def SPACE_def ETX_def onData_def handleProcessingError_def

lemma regexTest_iff: "regexTest cls s \<longleftrightarrow> (\<exists>c \<in> set s. c \<in> set cls)"
  by (induction s) auto

lemma regexTest_drop: "\<not> regexTest cls t \<Longrightarrow> \<not> regexTest cls (drop n t)"
  by (auto simp: regexTest_iff dest: in_set_dropD)

lemma boundary_free_no_LF: "\<not> regexTest boundaries t \<Longrightarrow> \<not> regexTest [LF] t"
  by (auto simp: regexTest_iff boundaries_def LF_def)

lemma written_append [simp]: "written (xs @ ys) = written xs @ written ys"
  by (induction xs rule: written.induct) simp_all

lemma written_writeToken [simp]: "written [writeToken cfg t] = [t]"
  by (simp add: writeToken_def)

lemma written_map_writeToken [simp]: "written (map (writeToken cfg) ts) = ts"
  by (induction ts) (auto simp: writeToken_def)

lemma written_shutdown [simp]: "written (shutdown s) = []"
  by (simp add: shutdown_def)

lemma written_finish: "written (snd (finish cfg (s, out))) = written out @ [NL]"
  by (simp add: finish_def proccessingStopped_def Let_def writeToken_def)

lemma trimInput_snoc: "c \<noteq> LF \<Longrightarrow> trimInput (xs @ [c, LF]) = xs"
proof (induction xs)
  case Nil
  then show ?case by simp
next
  case (Cons x xs)
  then show ?case by (cases xs) auto
qed

lemma popNewlines_id: "\<forall>t \<in> set xs. \<not> regexTest [LF] t \<Longrightarrow> popNewlines xs = xs"
  by (subst popNewlines.simps) auto

lemma popNewlines_Cons:
  "popNewlines (x # xs) =
     (if regexTest [LF] (last (x # xs)) then popNewlines (butlast (x # xs)) else x # xs)"
  by (subst popNewlines.simps) simp

lemma slice_to_minus_one:
  assumes "i \<le> length xs"
  shows "slice xs (int i) (- 1) = butlast (drop i xs)"
proof -
  have "nat (max (int (length xs) - 1) 0 - int i) = length xs - Suc i" by arith
  then show ?thesis using assms by (simp add: slice_def Let_def butlast_conv_take)
qed

lemma take_then_butlast_drop:
  assumes "n = length xs"
  shows "take (n - d) xs @ butlast (drop (n - d) xs) = (if d = 0 then xs else butlast xs)"
proof (cases "d = 0 \<or> xs = []")
  case True
  with assms show ?thesis by auto
next
  case False
  then have "n - d + (length xs - (n - d) - 1) = length xs - 1"
    using assms by (cases xs) auto
  then have "take (n - d) xs @ take (length xs - (n - d) - 1) (drop (n - d) xs) =
      take (length xs - 1) xs"
    by (simp add: take_add [symmetric])
  with False show ?thesis by (simp add: butlast_conv_take)
qed

subsection \<open>The buffer\<close>

lemma buffered_snoc:
  "buffered input (ts @ [t]) =
     buffered input ts @
       [if ts = [] \<and> startsWith t SPACE \<and> endsWith input SPACE then drop 1 t else t]"
  by (cases ts) (simp_all add: buffered_def)

lemma length_buffered [simp]: "length (buffered input ts) = length ts"
  by (cases ts) (simp_all add: buffered_def)

lemma buffered_boundary_free:
  "\<forall>t \<in> set ts. \<not> regexTest cls t \<Longrightarrow> \<forall>t \<in> set (buffered input ts). \<not> regexTest cls t"
  by (cases ts) (auto simp: buffered_def regexTest_drop)

subsection \<open>What every step leaves alone\<close>

lemma onToken_frame:
  "\<exists>s' l' e. onToken cfg input t (s, l, out) = (s', l', out @ e)
      \<and> busy s' = busy s \<and> killed s' = killed s \<and> Dispose \<notin> set e"
  by (simp add: onToken_def Let_def stopIndicating_def writeToken_def)

lemma onToken_index_in_range:
  assumes "currentIndex l \<le> length (buffer l)"
    and "onToken cfg input t (s, l, out) = (s', l', out')"
  shows "currentIndex l < length (buffer l') \<and> currentIndex l' \<le> length (buffer l')"
  using assms by (auto simp: onToken_def Let_def)

lemma liveLoop_index_in_range:
  "currentIndex l \<le> length (buffer l) \<Longrightarrow>
   liveLoop cfg input es (s, l, out) = (oc, s', l', out') \<Longrightarrow>
   currentIndex l' \<le> length (buffer l')"
proof (induction es arbitrary: s l out)
  case Nil
  then show ?case by simp
next
  case (Cons ev es)
  show ?case
  proof (cases ev)
    case (Token t)
    show ?thesis
    proof (cases "killed s")
      case True
      with Cons.prems Token show ?thesis by simp
    next
      case False
      obtain s1 l1 out1 where step: "onToken cfg input t (s, l, out) = (s1, l1, out1)"
        by (cases "onToken cfg input t (s, l, out)")
      from onToken_index_in_range [OF Cons.prems(1) step]
      have "currentIndex l1 \<le> length (buffer l1)" by simp
      moreover from Cons.prems(2) Token False step
      have "liveLoop cfg input es (s1, l1, out1) = (oc, s', l', out')" by simp
      ultimately show ?thesis by (rule Cons.IH)
    qed
  next
    case (Key k)
    with Cons.prems(2) have "liveLoop cfg input es (onData k s, l, out) = (oc, s', l', out')"
      by simp
    with Cons.prems(1) show ?thesis by (rule Cons.IH)
  next
    case SourceError
    with Cons.prems show ?thesis by simp
  qed
qed

lemma liveLoop_frame:
  "liveLoop cfg input es (s, l, out) = (oc, s', l', out') \<Longrightarrow>
     busy s' = busy s \<and> (\<exists>e. out' = out @ e \<and> Dispose \<notin> set e)"
proof (induction es arbitrary: s l out)
  case Nil
  then show ?case by simp
next
  case (Cons ev es)
  show ?case
  proof (cases ev)
    case (Token t)
    show ?thesis
    proof (cases "killed s")
      case True
      with Cons.prems Token show ?thesis by simp
    next
      case False
      obtain s1 l1 e1 where step: "onToken cfg input t (s, l, out) = (s1, l1, out @ e1)"
        and fr: "busy s1 = busy s" "Dispose \<notin> set e1"
        using onToken_frame [of cfg input t s l out] by blast
      from Cons.prems Token False step
      have "liveLoop cfg input es (s1, l1, out @ e1) = (oc, s', l', out')" by simp
      from Cons.IH [OF this] fr show ?thesis by auto
    qed
  next
    case (Key k)
    with Cons.prems have "liveLoop cfg input es (onData k s, l, out) = (oc, s', l', out')"
      by simp
    from Cons.IH [OF this] show ?thesis by (simp add: onData_def)
  next
    case SourceError
    with Cons.prems show ?thesis by simp
  qed
qed

lemma liveLoop_killed:
  "killed s \<Longrightarrow> liveLoop cfg input es (s, l, out) = (oc, s', l', out') \<Longrightarrow>
     killed s' \<and> out' = out"
proof (induction es arbitrary: s)
  case Nil
  then show ?case by simp
next
  case (Cons ev es)
  show ?case
  proof (cases ev)
    case (Token t)
    with Cons.prems show ?thesis by simp
  next
    case (Key k)
    with Cons.prems have "liveLoop cfg input es (onData k s, l, out) = (oc, s', l', out')"
      by simp
    moreover have "killed (onData k s)" using Cons.prems(1) by (simp add: onData_def)
    ultimately show ?thesis by (rule Cons.IH [rotated])
  next
    case SourceError
    with Cons.prems show ?thesis by simp
  qed
qed

lemma tailLoop_frame:
  "tailLoop cfg keys i ts (s, out) = (oc, s', out') \<Longrightarrow>
     busy s' = busy s \<and> (\<exists>e. out' = out @ e \<and> Dispose \<notin> set e)"
proof (induction ts arbitrary: i s out)
  case Nil
  then show ?case by simp
next
  case (Cons t ts)
  show ?case
  proof (cases "killed s")
    case True
    with Cons.prems show ?thesis by simp
  next
    case False
    define s1 where "s1 = (case keys i of None \<Rightarrow> s | Some k \<Rightarrow> onData k s)"
    have b: "busy s1 = busy s" by (simp add: s1_def onData_def split: option.splits)
    from Cons.prems False
    have "tailLoop cfg keys (Suc i) ts (s1, out @ [writeToken cfg t]) = (oc, s', out')"
      by (simp add: s1_def)
    from Cons.IH [OF this] b show ?thesis by (auto simp: writeToken_def)
  qed
qed

lemma tailLoop_killed: "killed s \<Longrightarrow> snd (tailLoop cfg keys i ts (s, out)) = (s, out)"
  by (cases ts) simp_all

lemma tailLoop_no_keys:
  "\<not> killed s \<Longrightarrow>
     tailLoop cfg (\<lambda>i. None) i ts (s, out) = (Ended, s, out @ map (writeToken cfg) ts)"
  by (induction ts arbitrary: i out) simp_all

lemma finish_frame:
  "busy s \<Longrightarrow> busy (fst (finish cfg (s, out)))
     \<and> snd (finish cfg (s, out)) =
         out @ [writeToken cfg NL, StopIndicating, RestoreInput, SetTimeoutDispose 800]"
  by (simp add: finish_def proccessingStopped_def Let_def stopIndicating_def shutdown_def)

subsection \<open>The shape of a run\<close>

lemma processStream_unfold:
  assumes "liveLoop cfg (trimInput input0) events
             (s0\<lparr>busy := True\<rparr>, initialLoop,
              (if append_flag cfg then [CreateWriteStream]
               else [writeToken cfg (trimInput input0)])
              @ [CreateCompletionStream (trimInput input0)]) = (oc, s2, l, out2)"
    and "tailLoop cfg keys 0 (drain l) (s2, out2) = (oc', s3, out3)"
  shows "processStream cfg input0 events keys s0 =
     (case oc of Returned \<Rightarrow> finish cfg (s2, out2)
      | Threw \<Rightarrow> finish cfg (s2, out2 @ handleProcessingError s2)
      | Ended \<Rightarrow> finish cfg (s3, out3))"
  using assms by (cases oc) (simp_all add: processStream_def Let_def)

lemma processStream_shape:
  "\<exists>s e. processStream cfg input0 events keys s0 =
       (s, (if append_flag cfg then [CreateWriteStream] else [writeToken cfg (trimInput input0)])
           @ [CreateCompletionStream (trimInput input0)] @ e
           @ [writeToken cfg NL, StopIndicating, RestoreInput, SetTimeoutDispose 800])
     \<and> busy s \<and> Dispose \<notin> set e"
proof -
  define out1 where
    "out1 = (if append_flag cfg then [CreateWriteStream] else [writeToken cfg (trimInput input0)])
            @ [CreateCompletionStream (trimInput input0)]"
  obtain oc s2 l out2 where
    live: "liveLoop cfg (trimInput input0) events (s0\<lparr>busy := True\<rparr>, initialLoop, out1) =
             (oc, s2, l, out2)"
    by (metis prod_cases4)
  from liveLoop_frame [OF live] obtain e2 where
    b2: "busy s2" and o2: "out2 = out1 @ e2" and d2: "Dispose \<notin> set e2" by auto
  obtain oc' s3 out3 where tail: "tailLoop cfg keys 0 (drain l) (s2, out2) = (oc', s3, out3)"
    by (metis prod_cases3)
  from tailLoop_frame [OF tail] b2 obtain e3 where
    b3: "busy s3" and o3: "out3 = out2 @ e3" and d3: "Dispose \<notin> set e3" by auto
  note unfold = processStream_unfold [OF live [unfolded out1_def] tail]
  have "\<exists>s e. processStream cfg input0 events keys s0 =
       (s, out1 @ e @ [writeToken cfg NL, StopIndicating, RestoreInput, SetTimeoutDispose 800])
     \<and> busy s \<and> Dispose \<notin> set e"
  proof (cases oc)
    case Ended
    with unfold finish_frame [OF b3, of cfg out3] d2 d3 o2 o3 show ?thesis
      by (cases "finish cfg (s3, out3)") auto
  next
    case Returned
    with unfold finish_frame [OF b2, of cfg out2] d2 o2 show ?thesis
      by (cases "finish cfg (s2, out2)") auto
  next
    case Threw
    have "Dispose \<notin> set (e2 @ handleProcessingError s2)"
      using d2 b2 by (simp add: handleProcessingError_def shutdown_def)
    moreover have "out2 @ handleProcessingError s2 = out1 @ e2 @ handleProcessingError s2"
      using o2 by simp
    ultimately show ?thesis
      using Threw unfold finish_frame [OF b2, of cfg "out2 @ handleProcessingError s2"]
      by (cases "finish cfg (s2, out2 @ handleProcessingError s2)") auto
  qed
  then show ?thesis by (simp add: out1_def)
qed

subsection \<open>The live loop on a stream of tokens\<close>

lemma liveLoop_append:
  "liveLoop cfg input (es1 @ es2) a =
     (case liveLoop cfg input es1 a of
        (Ended, a') \<Rightarrow> liveLoop cfg input es2 a'
      | (Returned, a') \<Rightarrow> (Returned, a')
      | (Threw, a') \<Rightarrow> (Threw, a'))"
proof (induction es1 arbitrary: a)
  case Nil
  then show ?case by (cases a) simp
next
  case (Cons ev es1)
  obtain s l out where a: "a = (s, l, out)" by (cases a)
  show ?case
  proof (cases ev)
    case (Token t)
    with a Cons.IH [of "onToken cfg input t (s, l, out)"] show ?thesis by simp
  next
    case (Key k)
    with a Cons.IH [of "(onData k s, l, out)"] show ?thesis by simp
  next
    case SourceError
    with a show ?thesis by simp
  qed
qed

text \<open>
  The loop invariant: after \<open>n\<close> tokens the buffer holds them all, \<^verbatim>\<open>currentToken\<close>
  is \<open>n - 1\<close>, and the first \<open>n - bufferAhead\<close> of them have been written.
\<close>

lemma liveLoop_tokens:
  assumes nk: "\<not> killed s"
  shows "\<exists>s' l' out'.
           liveLoop cfg input (map Token ts) (s, initialLoop, out) = (Ended, s', l', out')
           \<and> buffer l' = buffered input ts
           \<and> currentToken l' = int (length ts) - 1
           \<and> currentIndex l' = length ts - nat (bufferAhead cfg)
           \<and> written out' =
               written out @ take (length ts - nat (bufferAhead cfg)) (buffered input ts)
           \<and> \<not> killed s' \<and> busy s' = busy s
           \<and> ((\<forall>t \<in> set ts. \<not> regexTest boundaries t) \<longrightarrow> currentBoundary l' = - 1)"
proof (induction ts rule: rev_induct)
  case Nil
  show ?case using nk by (simp add: initialLoop_def buffered_def)
next
  case (snoc t ts)
  then obtain s' l' out' where
    run: "liveLoop cfg input (map Token ts) (s, initialLoop, out) = (Ended, s', l', out')"
    and buf: "buffer l' = buffered input ts"
    and ct: "currentToken l' = int (length ts) - 1"
    and ci: "currentIndex l' = length ts - nat (bufferAhead cfg)"
    and wr: "written out' =
               written out @ take (length ts - nat (bufferAhead cfg)) (buffered input ts)"
    and nk': "\<not> killed s'" and bz: "busy s' = busy s"
    and cb: "(\<forall>t \<in> set ts. \<not> regexTest boundaries t) \<longrightarrow> currentBoundary l' = - 1"
    by blast
  define tok where
    "tok = (if ts = [] \<and> startsWith t SPACE \<and> endsWith input SPACE then drop 1 t else t)"
  define k where "k = length ts - nat (bufferAhead cfg)"
  have first: "currentToken l' < 0 \<longleftrightarrow> ts = []" using ct by auto
  have bufs: "buffered input (ts @ [t]) = buffered input ts @ [tok]"
    by (simp add: buffered_snoc tok_def)
  obtain s'' l'' out'' where step: "onToken cfg input t (s', l', out') = (s'', l'', out'')"
    by (cases "onToken cfg input t (s', l', out')")
  have klt: "k < length (buffered input ts @ [tok])" by (simp add: k_def)
  have at_k: "at (buffered input ts @ [tok]) k = (buffered input ts @ [tok]) ! k"
    using klt by (simp add: at_def del: length_append)
  have take_emit:
    "take (Suc (length ts) - nat (bufferAhead cfg)) (buffered input ts @ [tok]) =
       take k (buffered input ts) @ [(buffered input ts @ [tok]) ! k]"
    if le: "nat (bufferAhead cfg) \<le> length ts"
  proof -
    from le have "Suc (length ts) - nat (bufferAhead cfg) = Suc k" by (simp add: k_def)
    moreover have "take (Suc k) (buffered input ts @ [tok]) =
        take k (buffered input ts @ [tok]) @ [(buffered input ts @ [tok]) ! k]"
      using klt by (rule take_Suc_conv_app_nth)
    moreover have "take k (buffered input ts @ [tok]) = take k (buffered input ts)"
      by (simp add: k_def)
    ultimately show ?thesis by simp
  qed
  have A: "buffer l'' = buffered input (ts @ [t])"
    using step by (auto simp: onToken_def Let_def buf bufs first tok_def)
  have B: "currentToken l'' = int (length (ts @ [t])) - 1"
    using step by (auto simp: onToken_def Let_def ct)
  have C: "currentIndex l'' = length (ts @ [t]) - nat (bufferAhead cfg)"
    using step by (auto simp: onToken_def Let_def ct ci)
  have D: "written out'' = written out @
      take (length (ts @ [t]) - nat (bufferAhead cfg)) (buffered input (ts @ [t]))"
  proof (cases "nat (bufferAhead cfg) \<le> length ts")
    case True
    then have e: "currentToken l' + 1 \<ge> bufferAhead cfg" using ct by auto
    have "out'' = out' @ (if currentToken l' + 1 = bufferAhead cfg \<and> \<not> append_flag cfg
                              \<and> isTTY cfg
                           then [StopIndicating] else [])
                       @ [writeToken cfg (at (buffered input ts @ [tok]) k)]"
      using step e by (auto simp: onToken_def Let_def buf first tok_def ci k_def)
    then have "written out'' = written out' @ [(buffered input ts @ [tok]) ! k]"
      by (simp add: at_k)
    with wr take_emit [OF True] show ?thesis by (simp add: bufs k_def)
  next
    case False
    then have e: "\<not> currentToken l' + 1 \<ge> bufferAhead cfg" using ct by auto
    have "out'' = out' @ (if currentToken l' + 1 = bufferAhead cfg \<and> \<not> append_flag cfg
                              \<and> isTTY cfg
                           then [StopIndicating] else [])"
      using step e by (auto simp: onToken_def Let_def)
    then have "written out'' = written out'" using e by auto
    with wr False show ?thesis by simp
  qed
  have E: "\<not> killed s''" "busy s'' = busy s"
    using step nk' bz by (auto simp: onToken_def Let_def stopIndicating_def split: if_splits)
  have F: "(\<forall>u \<in> set (ts @ [t]). \<not> regexTest boundaries u) \<longrightarrow> currentBoundary l'' = - 1"
  proof
    assume free: "\<forall>u \<in> set (ts @ [t]). \<not> regexTest boundaries u"
    then have "\<not> regexTest boundaries tok" by (simp add: tok_def regexTest_drop)
    moreover have "currentBoundary l' = - 1" using free cb by simp
    ultimately show "currentBoundary l'' = - 1"
      using step by (auto simp: onToken_def Let_def first tok_def split: if_splits)
  qed
  have "liveLoop cfg input (map Token (ts @ [t])) (s, initialLoop, out) =
          (Ended, s'', l'', out'')"
    using run nk' step by (simp add: liveLoop_append)
  with A B C D E F show ?case by blast
qed

lemma liveLoop_boundary_free:
  assumes nk: "\<not> killed s" and free: "\<forall>t \<in> set ts. \<not> regexTest boundaries t"
  shows "\<exists>s' l' out'.
           liveLoop cfg input (map Token ts) (s, initialLoop, out) = (Ended, s', l', out')
           \<and> drain l' = butlast (drop (length ts - nat (bufferAhead cfg)) (buffered input ts))
           \<and> written out' =
               written out @ take (length ts - nat (bufferAhead cfg)) (buffered input ts)
           \<and> \<not> killed s'"
proof -
  define B where "B = buffered input ts"
  define k where "k = length ts - nat (bufferAhead cfg)"
  from liveLoop_tokens [OF nk, of cfg input ts out] obtain s' l' out' where
    run: "liveLoop cfg input (map Token ts) (s, initialLoop, out) = (Ended, s', l', out')"
    and buf: "buffer l' = B"
    and ci: "currentIndex l' = k"
    and wr: "written out' = written out @ take k B"
    and nk': "\<not> killed s'"
    and cb: "currentBoundary l' = - 1"
    using free unfolding B_def k_def by blast
  have kle: "k \<le> length B" by (simp add: k_def B_def)
  have "\<forall>t \<in> set (butlast (drop k B)). \<not> regexTest boundaries t"
    using buffered_boundary_free [OF free, of input]
    by (auto simp: B_def dest!: in_set_butlastD in_set_dropD)
  then have "popNewlines (butlast (drop k B)) = butlast (drop k B)"
    by (intro popNewlines_id) (auto dest: boundary_free_no_LF)
  then have "drain l' = butlast (drop k B)"
    using kle by (simp add: drain_def cb buf ci slice_to_minus_one)
  with run wr nk' show ?thesis unfolding B_def k_def by blast
qed

lemma fill_then_cancel:
  assumes fill: "int (length ts) \<le> bufferAhead cfg" and bz: "busy s"
    and run: "liveLoop cfg input (map Token ts @ Key [ETX] # rest) (s, initialLoop, out) =
                (oc, s', l', out')"
  shows "killed s' \<and> written out' = written out"
proof (cases "killed s")
  case True
  from liveLoop_killed [OF True run] show ?thesis by simp
next
  case False
  from liveLoop_tokens [OF False, of cfg input ts out] obtain s1 l1 out1 where
    r1: "liveLoop cfg input (map Token ts) (s, initialLoop, out) = (Ended, s1, l1, out1)"
    and w1: "written out1 =
               written out @ take (length ts - nat (bufferAhead cfg)) (buffered input ts)"
    and b1: "busy s1 = busy s" by blast
  have "length ts - nat (bufferAhead cfg) = 0" using fill by auto
  with w1 have w1': "written out1 = written out" by simp
  have k: "killed (onData [ETX] s1)" using b1 bz by (simp add: onData_def)
  from run r1 have "liveLoop cfg input rest (onData [ETX] s1, l1, out1) = (oc, s', l', out')"
    by (simp add: liveLoop_append)
  from liveLoop_killed [OF k this] w1' show ?thesis by simp
qed

section \<open>Claims\<close>

subsection \<open>C1: a stream without boundary characters\<close>

text \<open>
  C1, as the code has it. Take a run that is not cancelled and whose tokens contain no
  character of the boundary class. Then \<^verbatim>\<open>currentBoundary\<close> is still \<open>-1\<close> when the
  stream ends, the test \<^verbatim>\<open>if (currentBoundary)\<close> succeeds, and the drain step is
  \<^verbatim>\<open>buffer.slice(currentIndex, -1)\<close>: it keeps the tokens not yet written except the
  last one. The texts handed to the sink are, in order: the echoed input (outside append
  mode), the buffered tokens, all of them when the lookahead depth is at most 0 and all
  but the last one otherwise, and the final newline.
\<close>

theorem boundary_free_stream:
  assumes nk: "\<not> killed s0" and free: "\<forall>t \<in> set ts. \<not> regexTest boundaries t"
  shows "drain (fst (snd (snd (liveLoop cfg input (map Token ts)
                                 (s0\<lparr>busy := True\<rparr>, initialLoop, out)))))
           = butlast (drop (length ts - nat (bufferAhead cfg)) (buffered input ts))
         \<and> written (snd (processStream cfg input0 (map Token ts) (\<lambda>i. None) s0)) =
             (if append_flag cfg then [] else [trimInput input0])
             @ (if bufferAhead cfg \<le> 0 then buffered (trimInput input0) ts
                else butlast (buffered (trimInput input0) ts))
             @ [NL]"
proof
  have nk1: "\<not> killed (s0\<lparr>busy := True\<rparr>)" using nk by simp
  from liveLoop_boundary_free [OF nk1 free, of cfg input out]
  show "drain (fst (snd (snd (liveLoop cfg input (map Token ts)
                                 (s0\<lparr>busy := True\<rparr>, initialLoop, out)))))
           = butlast (drop (length ts - nat (bufferAhead cfg)) (buffered input ts))"
    by auto
  define out1 where
    "out1 = (if append_flag cfg then [CreateWriteStream] else [writeToken cfg (trimInput input0)])
            @ [CreateCompletionStream (trimInput input0)]"
  define B where "B = buffered (trimInput input0) ts"
  define k where "k = length ts - nat (bufferAhead cfg)"
  from liveLoop_boundary_free [OF nk1 free, of cfg "trimInput input0" out1]
  obtain s' l' out' where
    run: "liveLoop cfg (trimInput input0) (map Token ts) (s0\<lparr>busy := True\<rparr>, initialLoop, out1) =
            (Ended, s', l', out')"
    and dr: "drain l' = butlast (drop k B)"
    and wr: "written out' = written out1 @ take k B"
    and nk': "\<not> killed s'"
    unfolding B_def k_def by blast
  have tail: "tailLoop cfg (\<lambda>i. None) 0 (drain l') (s', out') =
                (Ended, s', out' @ map (writeToken cfg) (drain l'))"
    using nk' by (rule tailLoop_no_keys)
  have "written (snd (processStream cfg input0 (map Token ts) (\<lambda>i. None) s0)) =
          written out1 @ take k B @ butlast (drop k B) @ [NL]"
    using processStream_unfold [OF run [unfolded out1_def] tail] dr wr
    by (simp add: written_finish)
  moreover have "take k B @ butlast (drop k B) =
      (if nat (bufferAhead cfg) = 0 then B else butlast B)"
    unfolding k_def by (rule take_then_butlast_drop) (simp add: B_def)
  moreover have "written out1 = (if append_flag cfg then [] else [trimInput input0])"
    by (simp add: out1_def)
  ultimately show "written (snd (processStream cfg input0 (map Token ts) (\<lambda>i. None) s0)) =
             (if append_flag cfg then [] else [trimInput input0])
             @ (if bufferAhead cfg \<le> 0 then buffered (trimInput input0) ts
                else butlast (buffered (trimInput input0) ts))
             @ [NL]"
    by (simp add: B_def)
qed

text \<open>
  The theorem at depth 2 with five tokens on an interactive terminal: three tokens are
  written live, the drain keeps one of the two that remain.
\<close>

theorem boundary_free_stream_witness:
  "\<not> killed (startIndicating initialState)
   \<and> \<not> regexTest boundaries (str '' and'') \<and> \<not> regexTest boundaries (str '' then'')
   \<and> \<not> regexTest boundaries (str '' it'') \<and> \<not> regexTest boundaries (str '' kept'')
   \<and> \<not> regexTest boundaries (str '' going'')
   \<and> drain (fst (snd (snd (liveLoop \<lparr>append_flag = False, isTTY = True, bufferAhead = 2\<rparr>
         (str ''It rained'')
         (map Token [str '' and'', str '' then'', str '' it'', str '' kept'', str '' going''])
         (startIndicating initialState\<lparr>busy := True\<rparr>, initialLoop, [])))))
       = [str '' kept'']
   \<and> written (snd (processStream \<lparr>append_flag = False, isTTY = True, bufferAhead = 2\<rparr>
         (str ''It rained'')
         (map Token [str '' and'', str '' then'', str '' it'', str '' kept'', str '' going''])
         (\<lambda>i. None) (startIndicating initialState)))
       = [str ''It rained'', str '' and'', str '' then'', str '' it'', str '' kept'', NL]"
  using boundary_free_stream [where ?s0.0 = "startIndicating initialState"
          and ts = "[str '' and'', str '' then'', str '' it'', str '' kept'', str '' going'']"
          and cfg = "\<lparr>append_flag = False, isTTY = True, bufferAhead = 2\<rparr>"
          and input = "str ''It rained''" and out = "[]" and ?input0.0 = "str ''It rained''"]
  by (simp add: startIndicating_def initialState_def boundaries_def str_def buffered_def
                startsWith_def endsWith_def SPACE_def LF_def NL_def)

text \<open>
  C1 as stated fails: with depth 2 and the five tokens
  \<^verbatim>\<open>" and", " then", " it", " kept", " going"\<close>, none of which holds a boundary
  character, the token \<^verbatim>\<open>" going"\<close> never reaches the sink.
\<close>

theorem boundary_free_stream_counterexample:
  "regexTest boundaries
     (concat [str '' and'', str '' then'', str '' it'', str '' kept'', str '' going'']) = False
   \<and> written (snd (processStream \<lparr>append_flag = False, isTTY = True, bufferAhead = 2\<rparr>
        (str ''It rained'')
        [Token (str '' and''), Token (str '' then''), Token (str '' it''), Token (str '' kept''),
         Token (str '' going'')]
        (\<lambda>i. None) (startIndicating initialState)))
     = [str ''It rained'', str '' and'', str '' then'', str '' it'', str '' kept'', NL]
   \<and> str '' going'' \<notin> set [str ''It rained'', str '' and'', str '' then'', str '' it'',
                            str '' kept'', NL]"
  by (simp add: run_defs popNewlines_Cons)

subsection \<open>C2: the run on "This is a story"\<close>

text \<open>
  C2, as the code has it. For the input \<^verbatim>\<open>"This is a story\n"\<close>, depth 3 and the
  tokens \<^verbatim>\<open>"about", " something", "."\<close>, on any of the three sinks and without
  cancellation: the boundary is recorded after the third token, the drain keeps all three
  tokens, and the text handed to the sink is the trimmed input (outside append mode; in
  append mode the file holds the input already), then \<^verbatim>\<open>"about something."\<close>, then a
  newline. Nothing is put between the input and the first token.
\<close>

theorem story_run:
  "(case liveLoop \<lparr>append_flag = a, isTTY = t, bufferAhead = 3\<rparr>
           (trimInput (str ''This is a story\<newline>''))
           [Token (str ''about''), Token (str '' something''), Token (str ''.'')]
           (startIndicating initialState\<lparr>busy := True\<rparr>, initialLoop, out)
    of (oc, s, l, out') \<Rightarrow>
       currentBoundary l = 3 \<and> drain l = [str ''about'', str '' something'', str ''.''])
   \<and> concat (written (snd (processStream \<lparr>append_flag = a, isTTY = t, bufferAhead = 3\<rparr>
        (str ''This is a story\<newline>'')
        [Token (str ''about''), Token (str '' something''), Token (str ''.'')]
        (\<lambda>i. None) (startIndicating initialState))))
     = (if a then [] else trimInput (str ''This is a story\<newline>''))
       @ str ''about something.'' @ NL"
  by (cases a; cases t) (simp_all add: run_defs popNewlines_Cons)

text \<open>
  C2 as stated fails. On the terminal and on a redirected stdout the text is
  \<^verbatim>\<open>"This is a storabout something.\n"\<close>, which is not
  \<^verbatim>\<open>"This is a story about something.\n"\<close>; in append mode the text written is
  \<^verbatim>\<open>"about something.\n"\<close> and the file, cut by \<open>createWriteStream\<close> to
  \<^verbatim>\<open>"This is a story"\<close>, ends up as \<^verbatim>\<open>"This is a storyabout something.\n"\<close>.
\<close>

theorem story_run_counterexample:
  "concat (written (snd (processStream \<lparr>append_flag = False, isTTY = True, bufferAhead = 3\<rparr>
        (str ''This is a story\<newline>'')
        [Token (str ''about''), Token (str '' something''), Token (str ''.'')]
        (\<lambda>i. None) (startIndicating initialState))))
     = str ''This is a storabout something.\<newline>''
   \<and> str ''This is a storabout something.\<newline>''
       \<noteq> str ''This is a story about something.\<newline>''
   \<and> concat (written (snd (processStream \<lparr>append_flag = False, isTTY = False, bufferAhead = 3\<rparr>
        (str ''This is a story\<newline>'')
        [Token (str ''about''), Token (str '' something''), Token (str ''.'')]
        (\<lambda>i. None) (startIndicating initialState))))
     = str ''This is a storabout something.\<newline>''
   \<and> concat (written (snd (processStream \<lparr>append_flag = True, isTTY = True, bufferAhead = 3\<rparr>
        (str ''This is a story\<newline>'')
        [Token (str ''about''), Token (str '' something''), Token (str ''.'')]
        (\<lambda>i. None) (startIndicating initialState))))
     = str ''about something.\<newline>''
   \<and> createWriteStream (map of_char ''This is a story\<newline>'')
       @ map of_char ''about something.\<newline>''
     = map of_char ''This is a storyabout something.\<newline>''"
  by (simp add: run_defs popNewlines_Cons createWriteStream_def readLastBytes_def
                truncateFile_def)

subsection \<open>C3: the boundary class\<close>

text \<open>
  C3, the detector on the horizontal ellipsis. The class of line 226 does not hold
  U+2026: a token that is the ellipsis, or that ends with it, is not a boundary, while a
  token that is the letter U+00E2 is one.
\<close>

theorem boundaries_on_ellipsis:
  "regexTest boundaries [0x2026] = False
   \<and> regexTest boundaries (str ''wait'' @ [0x2026]) = False
   \<and> regexTest boundaries [0xE2] = True"
  by (simp add: boundaries_def str_def)

subsection \<open>C4: when the live phase starts to write\<close>

text \<open>
  C4, as the code has it. \<^verbatim>\<open>currentToken\<close> is the index of the newest token, one
  less than the number of tokens pushed, and a token is written when
  \<^verbatim>\<open>currentToken >= bufferAhead\<close>. So for a depth \<open>d \<ge> 0\<close>, in a run that is not
  cancelled: nothing is written while at most \<open>d\<close> tokens have been pushed, and when the
  token number \<open>d + 1\<close> is pushed the first buffered token, and only it, has been
  written.
\<close>

theorem live_emission_after_depth:
  assumes nk: "\<not> killed s" and d0: "0 \<le> bufferAhead cfg"
  shows "(int (length ts) \<le> bufferAhead cfg \<longrightarrow>
            written (snd (snd (snd (liveLoop cfg input (map Token ts) (s, initialLoop, []))))) = [])
         \<and> (int (length ts) = bufferAhead cfg + 1 \<longrightarrow>
            written (snd (snd (snd (liveLoop cfg input (map Token ts) (s, initialLoop, []))))) =
              [hd (buffered input ts)])"
proof -
  from liveLoop_tokens [OF nk, of cfg input ts "[]"] obtain s' l' out' where
    run: "liveLoop cfg input (map Token ts) (s, initialLoop, []) = (Ended, s', l', out')"
    and wr: "written out' = take (length ts - nat (bufferAhead cfg)) (buffered input ts)"
    by auto
  have "int (length ts) \<le> bufferAhead cfg \<Longrightarrow> length ts - nat (bufferAhead cfg) = 0"
    by auto
  moreover have "take (length ts - nat (bufferAhead cfg)) (buffered input ts) =
      [hd (buffered input ts)]" if a: "int (length ts) = bufferAhead cfg + 1"
  proof -
    from a d0 have "length ts - nat (bufferAhead cfg) = 1" by auto
    moreover from a d0 have "buffered input ts \<noteq> []" by (cases ts) (auto simp: buffered_def)
    ultimately show ?thesis by (cases "buffered input ts") auto
  qed
  ultimately show ?thesis using run wr by simp
qed

text \<open>The theorem at depth 3, after three tokens and after four.\<close>

theorem live_emission_after_depth_witness:
  "\<not> killed (startIndicating initialState\<lparr>busy := True\<rparr>)
   \<and> (0::int) \<le> 3
   \<and> int (length [str ''about'', str '' something'', str ''.'']) \<le> 3
   \<and> written (snd (snd (snd (liveLoop \<lparr>append_flag = False, isTTY = True, bufferAhead = 3\<rparr>
         (str ''Once'') (map Token [str ''about'', str '' something'', str ''.''])
         (startIndicating initialState\<lparr>busy := True\<rparr>, initialLoop, []))))) = []
   \<and> int (length [str ''about'', str '' something'', str ''.'', str '' Then'']) = 3 + 1
   \<and> written (snd (snd (snd (liveLoop \<lparr>append_flag = False, isTTY = True, bufferAhead = 3\<rparr>
         (str ''Once'') (map Token [str ''about'', str '' something'', str ''.'', str '' Then''])
         (startIndicating initialState\<lparr>busy := True\<rparr>, initialLoop, []))))) = [str ''about'']"
  using live_emission_after_depth [where s = "startIndicating initialState\<lparr>busy := True\<rparr>"
          and cfg = "\<lparr>append_flag = False, isTTY = True, bufferAhead = 3\<rparr>"
          and ts = "[str ''about'', str '' something'', str ''.'']" and input = "str ''Once''"]
        live_emission_after_depth [where s = "startIndicating initialState\<lparr>busy := True\<rparr>"
          and cfg = "\<lparr>append_flag = False, isTTY = True, bufferAhead = 3\<rparr>"
          and ts = "[str ''about'', str '' something'', str ''.'', str '' Then'']"
          and input = "str ''Once''"]
  by (simp add: startIndicating_def initialState_def buffered_def startsWith_def endsWith_def
                SPACE_def str_def)

text \<open>
  C4 as stated fails: at depth 3, when the third token has been pushed (the count has
  reached the depth), the loop has written nothing and \<^verbatim>\<open>currentIndex\<close> is still 0.
\<close>

theorem live_emission_counterexample:
  "liveLoop \<lparr>append_flag = False, isTTY = True, bufferAhead = 3\<rparr> (str ''Once'')
      [Token (str ''about''), Token (str '' something''), Token (str ''.'')]
      (startIndicating initialState\<lparr>busy := True\<rparr>, initialLoop, [])
   = (Ended, startIndicating initialState\<lparr>busy := True\<rparr>,
      \<lparr>buffer = [str ''about'', str '' something'', str ''.''], currentToken = 2,
       currentIndex = 0, currentBoundary = 3\<rparr>, [])"
  by (simp add: run_defs)

subsection \<open>C5: the trailing newline of the file in append mode\<close>

text \<open>
  Where the guard \<^verbatim>\<open>eof > 1\<close> lets the check run, that is on a file of at least
  four bytes, it does what the comment of line 173 announces: a single trailing newline
  is cut off, a double one stays.
\<close>

lemma createWriteStream_single:
  "2 \<le> length xs \<Longrightarrow> b \<noteq> 0x0A \<Longrightarrow> createWriteStream (xs @ [b, 0x0A]) = xs @ [b]"
  by (simp add: createWriteStream_def readLastBytes_def truncateFile_def Let_def nat_add_distrib)

lemma createWriteStream_double:
  "createWriteStream (xs @ [0x0A, 0x0A]) = xs @ [0x0A, 0x0A]"
  by (simp add: createWriteStream_def readLastBytes_def truncateFile_def Let_def)

text \<open>
  \<^verbatim>\<open>eof\<close> is already \<^verbatim>\<open>size - 2\<close>, so the guard asks for \<^verbatim>\<open>size > 3\<close>: no
  file of fewer than four bytes is ever inspected, whatever its last two bytes are.
\<close>

lemma createWriteStream_below_four:
  "length file < 4 \<Longrightarrow> createWriteStream file = file"
  by (simp add: createWriteStream_def)

text \<open>
  C5, the newline check on short files. The two-byte file \<^verbatim>\<open>"a\n"\<close> and the
  three-byte file \<^verbatim>\<open>"ab\n"\<close> each end in exactly one newline byte that follows a
  byte other than a newline, and \<^verbatim>\<open>createWriteStream\<close> leaves both as they are,
  where the claim has them one byte shorter. The four-byte file \<^verbatim>\<open>"abc\n"\<close> does
  lose its newline, and \<^verbatim>\<open>"a\n\n"\<close> is left unchanged as the claim says.
\<close>

theorem createWriteStream_short_files:
  "(0x61 :: byte) \<noteq> 0x0A \<and> (0x62 :: byte) \<noteq> 0x0A
   \<and> createWriteStream [0x61, 0x0A] = [0x61, 0x0A]
   \<and> createWriteStream [0x61, 0x62, 0x0A] = [0x61, 0x62, 0x0A]
   \<and> createWriteStream [0x61, 0x62, 0x63, 0x0A] = [0x61, 0x62, 0x63]
   \<and> createWriteStream [0x61, 0x0A, 0x0A] = [0x61, 0x0A, 0x0A]"
  by (simp add: createWriteStream_def readLastBytes_def truncateFile_def)

subsection \<open>C6: the progress indicator and the paced drain\<close>

text \<open>
  C6, a run on an interactive terminal whose stream ends before the buffer fills: depth
  3 and the three tokens \<^verbatim>\<open>"about", " something", "."\<close>. The three tokens and the
  final newline are written to the terminal line first; \<^verbatim>\<open>stopIndicating\<close> is called
  after them, from \<^verbatim>\<open>proccessingStopped\<close>.
\<close>

theorem indicator_stops_after_drain:
  "snd (processStream \<lparr>append_flag = False, isTTY = True, bufferAhead = 3\<rparr>
      (str ''This is a story\<newline>'')
      [Token (str ''about''), Token (str '' something''), Token (str ''.'')]
      (\<lambda>i. None) (startIndicating initialState))
   = [LineWrite (str ''This is a stor''), CreateCompletionStream (str ''This is a stor''),
      LineWrite (str ''about''), LineWrite (str '' something''), LineWrite (str ''.''),
      LineWrite NL, StopIndicating, RestoreInput, SetTimeoutDispose 800]"
  by (simp add: run_defs popNewlines_Cons)

text \<open>
  The same tokens at depth 2, where the third token starts the live phase: there
  \<^verbatim>\<open>stopIndicating\<close> comes before the first token on the terminal line.
\<close>

lemma indicator_stops_before_live_write:
  "snd (processStream \<lparr>append_flag = False, isTTY = True, bufferAhead = 2\<rparr>
      (str ''This is a story\<newline>'')
      [Token (str ''about''), Token (str '' something''), Token (str ''.'')]
      (\<lambda>i. None) (startIndicating initialState))
   = [LineWrite (str ''This is a stor''), CreateCompletionStream (str ''This is a stor''),
      StopIndicating, LineWrite (str ''about''), LineWrite (str '' something''),
      LineWrite (str ''.''), LineWrite NL, StopIndicating, RestoreInput,
      SetTimeoutDispose 800]"
  by (simp add: run_defs popNewlines_Cons)

subsection \<open>C7: cancellation while the buffer fills\<close>

text \<open>
  C7. Let Ctrl-C (the single byte ETX) arrive when at most \<^verbatim>\<open>bufferAhead\<close> tokens
  have been pushed, which is before any token has been written and covers every count
  below the depth. Whatever the source and the terminal send after that, no token is
  handed to the sink: the sink gets the echoed input (outside append mode) and the final
  newline of \<^verbatim>\<open>proccessingStopped\<close>, nothing else.
\<close>

theorem cancel_during_fill:
  "int (length ts) \<le> bufferAhead cfg \<longrightarrow>
     written (snd (processStream cfg input0 (map Token ts @ Key [ETX] # rest) keys s0)) =
       (if append_flag cfg then [] else [trimInput input0]) @ [NL]"
proof
  assume fill: "int (length ts) \<le> bufferAhead cfg"
  define out1 where
    "out1 = (if append_flag cfg then [CreateWriteStream] else [writeToken cfg (trimInput input0)])
            @ [CreateCompletionStream (trimInput input0)]"
  obtain oc s2 l out2 where
    live: "liveLoop cfg (trimInput input0) (map Token ts @ Key [ETX] # rest)
             (s0\<lparr>busy := True\<rparr>, initialLoop, out1) = (oc, s2, l, out2)"
    by (metis prod_cases4)
  from fill_then_cancel [OF fill _ live]
  have k2: "killed s2" and w2: "written out2 = written out1" by simp_all
  have w1: "written out1 = (if append_flag cfg then [] else [trimInput input0])"
    by (simp add: out1_def)
  obtain oc' s3 out3 where tail: "tailLoop cfg keys 0 (drain l) (s2, out2) = (oc', s3, out3)"
    by (metis prod_cases3)
  with tailLoop_killed [OF k2, of cfg keys 0 "drain l" out2] have o3: "out3 = out2" by simp
  have "written (snd (processStream cfg input0 (map Token ts @ Key [ETX] # rest) keys s0)) =
          written out2 @ [NL]"
    using processStream_unfold [OF live [unfolded out1_def] tail] o3
    by (cases oc) (simp_all add: written_finish handleProcessingError_def)
  with w1 w2
  show "written (snd (processStream cfg input0 (map Token ts @ Key [ETX] # rest) keys s0)) =
       (if append_flag cfg then [] else [trimInput input0]) @ [NL]"
    by simp
qed

text \<open>
  The theorem at depth 3: two tokens, Ctrl-C, then a third token that the loop no longer
  takes.
\<close>

theorem cancel_during_fill_witness:
  "int (length [str '' and'', str '' then'']) \<le> 3
   \<and> written (snd (processStream \<lparr>append_flag = False, isTTY = True, bufferAhead = 3\<rparr>
        (str ''It rained'')
        (map Token [str '' and'', str '' then''] @ Key [ETX] # [Token (str '' it'')])
        (\<lambda>i. None) (startIndicating initialState)))
     = [str ''It rained'', NL]"
  using cancel_during_fill [where ts = "[str '' and'', str '' then'']"
          and cfg = "\<lparr>append_flag = False, isTTY = True, bufferAhead = 3\<rparr>"
          and ?input0.0 = "str ''It rained''" and rest = "[Token (str '' it'')]"
          and keys = "\<lambda>i. None" and ?s0.0 = "startIndicating initialState"]
  by (simp add: str_def LF_def)

subsection \<open>C8: restoring the input twice\<close>

text \<open>
  C8. \<^verbatim>\<open>restoreInput\<close> after \<^verbatim>\<open>restoreInput\<close> leaves the handler of the terminal
  input and the visibility of the cursor as one call leaves them, and a call in
  passthrough (handler attached, cursor shown) changes neither. What differs is the text
  sent to stderr, which gets the escape sequence once more.
\<close>

theorem restoreInput_idempotent:
  "ttyWrite (restoreInput (restoreInput t)) = ttyWrite (restoreInput t)
   \<and> cursorShown (restoreInput (restoreInput t)) = cursorShown (restoreInput t)
   \<and> (ttyWrite t = Tty \<and> cursorShown t \<longrightarrow>
        ttyWrite (restoreInput t) = ttyWrite t \<and> cursorShown (restoreInput t) = cursorShown t)"
  by (simp add: restoreInput_def)

text \<open>The theorem on a terminal in passthrough, and on the same terminal once blocked.\<close>

theorem restoreInput_idempotent_witness:
  "ttyWrite \<lparr>ttyWrite = Tty, cursorShown = True, stderrText = []\<rparr> = Tty
   \<and> cursorShown \<lparr>ttyWrite = Tty, cursorShown = True, stderrText = []\<rparr>
   \<and> ttyWrite (restoreInput \<lparr>ttyWrite = Tty, cursorShown = True, stderrText = []\<rparr>) = Tty
   \<and> cursorShown (restoreInput \<lparr>ttyWrite = Tty, cursorShown = True, stderrText = []\<rparr>)
   \<and> ttyWrite (restoreInput (restoreInput
        (blockInput \<lparr>ttyWrite = Tty, cursorShown = True, stderrText = []\<rparr>)))
       = ttyWrite (restoreInput (blockInput \<lparr>ttyWrite = Tty, cursorShown = True, stderrText = []\<rparr>))
   \<and> cursorShown (restoreInput (restoreInput
        (blockInput \<lparr>ttyWrite = Tty, cursorShown = True, stderrText = []\<rparr>)))
       = cursorShown (restoreInput (blockInput \<lparr>ttyWrite = Tty, cursorShown = True, stderrText = []\<rparr>))"
  using restoreInput_idempotent [of "\<lparr>ttyWrite = Tty, cursorShown = True, stderrText = []\<rparr>"]
        restoreInput_idempotent
          [of "blockInput \<lparr>ttyWrite = Tty, cursorShown = True, stderrText = []\<rparr>"]
  by simp

subsection \<open>C9: the trim of the input\<close>

text \<open>
  C9. When the input ends with a newline that follows a code unit other than a newline,
  the replacement of line 233 removes both: the input loses its last two code units. The
  shortened text is what is echoed to the sink (outside append mode, where nothing is
  echoed) and what is given to the model as the prompt.
\<close>

theorem trimInput_removes_match:
  "c \<noteq> LF \<longrightarrow>
     trimInput (xs @ [c, LF]) = xs
     \<and> take 2 (snd (processStream cfg (xs @ [c, LF]) events keys s0)) =
         [if append_flag cfg then CreateWriteStream else writeToken cfg xs,
          CreateCompletionStream xs]"
proof
  assume c: "c \<noteq> LF"
  from processStream_shape [of cfg "xs @ [c, LF]" events keys s0] obtain s e where
    "processStream cfg (xs @ [c, LF]) events keys s0 =
       (s, (if append_flag cfg then [CreateWriteStream]
            else [writeToken cfg (trimInput (xs @ [c, LF]))])
           @ [CreateCompletionStream (trimInput (xs @ [c, LF]))] @ e
           @ [writeToken cfg NL, StopIndicating, RestoreInput, SetTimeoutDispose 800])"
    by blast
  with c show "trimInput (xs @ [c, LF]) = xs
     \<and> take 2 (snd (processStream cfg (xs @ [c, LF]) events keys s0)) =
         [if append_flag cfg then CreateWriteStream else writeToken cfg xs,
          CreateCompletionStream xs]"
    by (simp add: trimInput_snoc)
qed

text \<open>The theorem on \<^verbatim>\<open>"This is a story\n"\<close>: the letter y goes with the newline.\<close>

theorem trimInput_removes_match_witness:
  "(0x79 :: jschar) \<noteq> LF
   \<and> trimInput (str ''This is a stor'' @ [0x79, LF]) = str ''This is a stor''
   \<and> str ''This is a stor'' @ [0x79, LF] = str ''This is a story\<newline>''
   \<and> take 2 (snd (processStream \<lparr>append_flag = False, isTTY = True, bufferAhead = 3\<rparr>
        (str ''This is a stor'' @ [0x79, LF]) [Token (str ''about'')] (\<lambda>i. None)
        (startIndicating initialState)))
     = [LineWrite (str ''This is a stor''), CreateCompletionStream (str ''This is a stor'')]"
  using trimInput_removes_match [where c = "0x79" and xs = "str ''This is a stor''"
          and cfg = "\<lparr>append_flag = False, isTTY = True, bufferAhead = 3\<rparr>"
          and events = "[Token (str ''about'')]" and keys = "\<lambda>i. None"
          and ?s0.0 = "startIndicating initialState"]
  by (simp add: LF_def str_def writeToken_def)

subsection \<open>C10: busy is never reset\<close>

text \<open>
  C10. No handler changes \<^verbatim>\<open>state.busy\<close>, and \<^verbatim>\<open>processStream\<close> only sets it. So
  every run of \<^verbatim>\<open>processStream\<close>, however it ends, leaves \<open>busy\<close> set, never calls
  \<^verbatim>\<open>dispose\<close> directly, and ends with \<^verbatim>\<open>setTimeout(dispose, 800)\<close>; the handler
  of uncaught exceptions never reaches the direct call either. \<^verbatim>\<open>shutdown\<close> disposes at
  once exactly when \<open>busy\<close> is not set, and defers by 800 ms exactly when it is.
\<close>

theorem busy_never_reset:
  "busy (onData k s) = busy s \<and> busy (startIndicating s) = busy s
   \<and> busy (flashTick s) = busy s \<and> busy (stopIndicating s) = busy s
   \<and> busy (fst (processStream cfg input0 events keys s0))
   \<and> Dispose \<notin> set (snd (processStream cfg input0 events keys s0))
   \<and> last (snd (processStream cfg input0 events keys s0)) = SetTimeoutDispose 800
   \<and> Dispose \<notin> set (uncaughtException s)
   \<and> (shutdown s = [Dispose]) = (\<not> busy s)
   \<and> (shutdown s = [SetTimeoutDispose 800]) = busy s"
proof -
  from processStream_shape [of cfg input0 events keys s0] obtain s' e where
    "processStream cfg input0 events keys s0 =
       (s', (if append_flag cfg then [CreateWriteStream]
             else [writeToken cfg (trimInput input0)])
            @ [CreateCompletionStream (trimInput input0)] @ e
            @ [writeToken cfg NL, StopIndicating, RestoreInput, SetTimeoutDispose 800])"
    "busy s'" "Dispose \<notin> set e" by blast
  then have "busy (fst (processStream cfg input0 events keys s0))
     \<and> Dispose \<notin> set (snd (processStream cfg input0 events keys s0))
     \<and> last (snd (processStream cfg input0 events keys s0)) = SetTimeoutDispose 800"
    by (simp add: writeToken_def)
  moreover have "busy (onData k s) = busy s \<and> busy (startIndicating s) = busy s
   \<and> busy (flashTick s) = busy s \<and> busy (stopIndicating s) = busy s"
    by (simp add: onData_def startIndicating_def flashTick_def stopIndicating_def)
  moreover have "Dispose \<notin> set (uncaughtException s)
   \<and> (shutdown s = [Dispose]) = (\<not> busy s)
   \<and> (shutdown s = [SetTimeoutDispose 800]) = busy s"
    by (simp add: uncaughtException_def shutdown_def)
  ultimately show ?thesis by blast
qed

end
